theory Spec2Isabelle
  imports Complex_Main "HOL-Library.Multiset"
begin

section \<open>Data model\<close>

text \<open>
  The program is \<^verbatim>\<open>compute_portvals\<close> of \<^verbatim>\<open>marketsimcode.py\<close>: it reads a table of
  orders, fetches daily prices, books every order into a table of daily changes
  (\<^verbatim>\<open>data_2\<close>), turns the daily changes into running holdings (\<^verbatim>\<open>data_3\<close>) and
  values the holdings at the prices (\<^verbatim>\<open>data_1\<close>).

  Conventions of the embedding:
  \<^item> a calendar day is its day number (an \<open>int\<close>), so that \<^verbatim>\<open>begin_date - timedelta(days = 1)\<close>
    is \<open>begin_date - 1\<close> and \<^verbatim>\<open>pd.date_range(a, b)\<close> is \<open>[a..b]\<close>;
  \<^item> Python floats are exact reals (no rounding, no NaN price);
  \<^item> a pandas frame with a duplicate-free date index is its index, its symbol columns
    and a function from the row label to the row; the column \<^verbatim>\<open>'Cash'\<close> is a field of
    the row apart from the symbol columns (no symbol is spelled \<^verbatim>\<open>Cash\<close>);
  \<^item> \<^verbatim>\<open>DataFrame.apply(f, axis = 1)\<close> calls \<open>f\<close> once on every row, from the first row to
    the last;
  \<^item> every exception is a value \<open>Inl e\<close> of the result.
\<close>

type_synonym date = int
type_synonym symbol = string

text \<open>
  The first three errors are the Python exceptions the source can raise. The last four
  are the names of the specification's error taxonomy; \<open>UnknownSymbolError\<close> is raised
  by the price provider below, the source raises none of the other three.
\<close>

datatype error =
    IndexError
  | KeyError
  | ValueError
  | UnknownSymbolError
  | InvalidOrderError
  | EmptyOrderListError
  | MissingPriceDataError

text \<open>
  A cell of the \<^verbatim>\<open>Date\<close> column is a string. The source reads it in two ways: lines
  27-31 split the string of the first and of the last row at \<^verbatim>\<open>'-'\<close>, turn the parts
  into integers and build a \<^verbatim>\<open>datetime\<close> from the first three; lines 48-49 hand the
  string of every booked row to pandas as a row label. The model has three kinds of
  strings:
  \<^item> \<open>Day d\<close>, a string \<^verbatim>\<open>'YYYY-MM-DD'\<close> that denotes day \<open>d\<close>;
  \<^item> \<open>NotADate\<close>, a string with a part that is no integer, or with three integers that
    are no calendar day, such as \<^verbatim>\<open>'n/a'\<close> or \<^verbatim>\<open>'2008-13-45'\<close>: \<^verbatim>\<open>int\<close> or \<^verbatim>\<open>dt.datetime\<close>
    raises ValueError;
  \<^item> \<open>ShortDate\<close>, a string of fewer than three parts, all of them integers, such as
    \<^verbatim>\<open>'13'\<close>: the read of the third part in line 28 or 31 raises IndexError.

  \<open>NotADate\<close> and \<open>ShortDate\<close> stand for strings that pandas does not read as a date
  either, so that no row has them as its label. Strings that only one of the two
  readers takes for a date are outside the model: \<^verbatim>\<open>'20080101'\<close>, which pandas reads as
  a day, and \<^verbatim>\<open>'2008-01'\<close> or \<^verbatim>\<open>'2008'\<close>, which pandas reads as a month or a year and
  books on every row of it.
\<close>

datatype date_cell = Day date | NotADate | ShortDate

text \<open>
  One row of \<^verbatim>\<open>orders_df\<close>, with the columns \<^verbatim>\<open>Date, Symbol, Order, Shares\<close>. The
  \<^verbatim>\<open>Order\<close> cell may be missing (NaN, here \<open>None\<close>): \<^verbatim>\<open>testPolicy\<close> of
  \<^verbatim>\<open>TheoreticallyOptimalStrategy.py\<close> never fills it on its last row.
\<close>

record order_row =
  Date :: date_cell
  Symbol :: symbol
  Order :: "string option"
  Shares :: real

record row =
  sym :: "symbol \<Rightarrow> real"
  Cash :: real

record frame =
  index :: "date list"
  columns :: "symbol list"
  cell :: "date \<Rightarrow> row"

text \<open>A fetched price table: the frame before it has a \<^verbatim>\<open>'Cash'\<close> column.\<close>

record price_frame =
  p_index :: "date list"
  p_columns :: "symbol list"
  p_cell :: "date \<Rightarrow> symbol \<Rightarrow> real"

type_synonym series = "(date \<times> real) list"

section \<open>The price provider\<close>

record provider =
  trading :: "date \<Rightarrow> bool"
  universe :: "symbol list"
  price :: "date \<Rightarrow> symbol \<Rightarrow> real"

text \<open>
  Modelled from the spec: \<^verbatim>\<open>util.get_data\<close>, the Price Provider, is imported by the
  source and is not part of it. Following sections 4.4 and 7 of the specification
  it returns one row per day of the requested range on which the provider has prices
  (\<open>trading\<close>), with a price for every requested symbol on every such day, and fails
  with \<open>UnknownSymbolError\<close> for a symbol outside its universe.
\<close>

definition get_data :: "provider \<Rightarrow> symbol list \<Rightarrow> date \<Rightarrow> date \<Rightarrow> error + price_frame" where
  "get_data P symbols lo hi =
     (if \<exists>s \<in> set symbols. s \<notin> set (universe P) then Inl UnknownSymbolError
      else Inr \<lparr>p_index = filter (trading P) [lo..hi], p_columns = symbols, p_cell = price P\<rparr>)"

section \<open>Frame operations used by the source\<close>

text \<open>\<^verbatim>\<open>str(cell).split('-')\<close>, \<^verbatim>\<open>int\<close> of the parts and \<^verbatim>\<open>dt.datetime(y, m, d)\<close> (lines 27-31).\<close>

fun parse_date :: "date_cell \<Rightarrow> error + date" where
  "parse_date (Day d) = Inr d"
| "parse_date NotADate = Inl ValueError"
| "parse_date ShortDate = Inl IndexError"

text \<open>\<^verbatim>\<open>Series.unique()\<close>: the distinct values in the order of their first appearance.\<close>

definition unique :: "'a list \<Rightarrow> 'a list" where
  "unique xs = rev (remdups (rev xs))"

text \<open>\<^verbatim>\<open>df['Cash'] = v\<close> on a fetched table (lines 36, 39, 43).\<close>

definition set_Cash :: "real \<Rightarrow> price_frame \<Rightarrow> frame" where
  "set_Cash v pf =
     \<lparr>index = p_index pf, columns = p_columns pf,
      cell = (\<lambda>d. \<lparr>sym = p_cell pf d, Cash = v\<rparr>)\<rparr>"

text \<open>\<^verbatim>\<open>df[symbols] = v\<close> (lines 40, 45).\<close>

definition set_columns :: "symbol list \<Rightarrow> real \<Rightarrow> frame \<Rightarrow> frame" where
  "set_columns symbols v df =
     df\<lparr>cell := (\<lambda>d. (cell df d)\<lparr>sym := (\<lambda>s. if s \<in> set symbols then v else sym (cell df d) s)\<rparr>)\<rparr>"

text \<open>\<^verbatim>\<open>df.iloc[k, -1] = v\<close>: the last column is \<^verbatim>\<open>'Cash'\<close>; no row \<open>k\<close> is an IndexError.\<close>

definition iloc_set_Cash :: "frame \<Rightarrow> nat \<Rightarrow> real \<Rightarrow> error + frame" where
  "iloc_set_Cash df k v =
     (if k < length (index df)
      then Inr (df\<lparr>cell := (cell df)(index df ! k := (cell df (index df ! k))\<lparr>Cash := v\<rparr>)\<rparr>)
      else Inl IndexError)"

text \<open>
  \<^verbatim>\<open>df.loc[date, column]\<close> as a read: a label that is not in the index, or a column
  that is not in the frame, is a KeyError.
\<close>

fun loc :: "frame \<Rightarrow> date_cell \<Rightarrow> error + row" where
  "loc df (Day d) = (if d \<in> set (index df) then Inr (cell df d) else Inl KeyError)"
| "loc df NotADate = Inl KeyError"
| "loc df ShortDate = Inl KeyError"

definition loc_get :: "frame \<Rightarrow> date_cell \<Rightarrow> symbol \<Rightarrow> error + real" where
  "loc_get df date symbol =
     (case loc df date of
        Inl e \<Rightarrow> Inl e
      | Inr r \<Rightarrow> if symbol \<in> set (columns df) then Inr (sym r symbol) else Inl KeyError)"

definition loc_get_Cash :: "frame \<Rightarrow> date_cell \<Rightarrow> error + real" where
  "loc_get_Cash df date = (case loc df date of Inl e \<Rightarrow> Inl e | Inr r \<Rightarrow> Inr (Cash r))"

text \<open>
  \<^verbatim>\<open>df.loc[date, column] = v\<close> as a write. The source writes a cell only after it has
  read the same cell, so the label is in the index whenever the write is reached.
\<close>

fun loc_set :: "frame \<Rightarrow> date_cell \<Rightarrow> symbol \<Rightarrow> real \<Rightarrow> frame" where
  "loc_set df (Day d) symbol v =
     df\<lparr>cell := (cell df)(d := (cell df d)\<lparr>sym := (sym (cell df d))(symbol := v)\<rparr>)\<rparr>"
| "loc_set df NotADate symbol v = df"
| "loc_set df ShortDate symbol v = df"

fun loc_set_Cash :: "frame \<Rightarrow> date_cell \<Rightarrow> real \<Rightarrow> frame" where
  "loc_set_Cash df (Day d) v = df\<lparr>cell := (cell df)(d := (cell df d)\<lparr>Cash := v\<rparr>)\<rparr>"
| "loc_set_Cash df NotADate v = df"
| "loc_set_Cash df ShortDate v = df"

section \<open>The cost model: \<^verbatim>\<open>calculate_data_2\<close> (lines 47-49)\<close>

definition calculate_data_2 ::
  "frame \<Rightarrow> frame \<Rightarrow> date_cell \<Rightarrow> symbol \<Rightarrow> real \<Rightarrow> real \<Rightarrow> real \<Rightarrow> real \<Rightarrow> error + frame" where
  "calculate_data_2 df df_2 date symbol shares impact commission buy_or_sell =
     (case loc_get df date symbol of
        Inl e \<Rightarrow> Inl e
      | Inr v \<Rightarrow>
          let df' = loc_set df date symbol (v + (- buy_or_sell) * shares) in
          (case loc_get_Cash df' date of
             Inl e \<Rightarrow> Inl e
           | Inr c \<Rightarrow>
               (case loc_get df_2 date symbol of
                  Inl e \<Rightarrow> Inl e
                | Inr p \<Rightarrow>
                    Inr (loc_set_Cash df' date
                           (c + (p * shares * (buy_or_sell - impact)) - commission)))))"

text \<open>
  \<^verbatim>\<open>orders.apply(lambda order: calculate_data_2(data_2, data_1, ...), axis = 1)\<close>: one
  call per row, in the order of the rows; the first exception ends the pass.
\<close>

fun apply_rows ::
  "frame \<Rightarrow> frame \<Rightarrow> real \<Rightarrow> real \<Rightarrow> real \<Rightarrow> order_row list \<Rightarrow> error + frame" where
  "apply_rows df df_2 impact commission buy_or_sell [] = Inr df"
| "apply_rows df df_2 impact commission buy_or_sell (order # orders) =
     (case calculate_data_2 df df_2 (Date order) (Symbol order) (Shares order)
             impact commission buy_or_sell of
        Inl e \<Rightarrow> Inl e
      | Inr df' \<Rightarrow> apply_rows df' df_2 impact commission buy_or_sell orders)"

text \<open>
  \<^verbatim>\<open>orders_df.where(orders_df['Order'] == 'SELL').dropna()\<close> and
  \<^verbatim>\<open>orders_df.where(orders_df['Order'] != 'SELL').dropna()\<close> (lines 51, 65): \<^verbatim>\<open>dropna\<close>
  removes the rows that \<^verbatim>\<open>where\<close> blanked, and the rows whose \<^verbatim>\<open>Order\<close> cell is missing.
\<close>

definition sell_orders :: "order_row list \<Rightarrow> order_row list" where
  "sell_orders orders_df = filter (\<lambda>order. Order order = Some ''SELL'') orders_df"

definition buy_orders :: "order_row list \<Rightarrow> order_row list" where
  "buy_orders orders_df =
     filter (\<lambda>order. Order order \<noteq> Some ''SELL'' \<and> Order order \<noteq> None) orders_df"

text \<open>Lines 51-77: the pass over the SELL rows, then the pass over the other rows.\<close>

definition book_orders ::
  "frame \<Rightarrow> frame \<Rightarrow> real \<Rightarrow> real \<Rightarrow> order_row list \<Rightarrow> error + frame" where
  "book_orders df df_2 impact commission orders_df =
     (case apply_rows df df_2 impact commission 1 (sell_orders orders_df) of
        Inl e \<Rightarrow> Inl e
      | Inr df' \<Rightarrow> apply_rows df' df_2 impact commission (- 1) (buy_orders orders_df))"

section \<open>Running holdings: lines 79-87\<close>

text \<open>Lines 79-80: row 0 of \<^verbatim>\<open>data_3\<close> takes the changes of row 0 of \<^verbatim>\<open>data_2\<close>.\<close>

definition first_row :: "frame \<Rightarrow> frame \<Rightarrow> error + frame" where
  "first_row df df_2 =
     (if index df = [] \<or> index df_2 = [] then Inl IndexError
      else
        let r = cell df (index df ! 0); r_2 = cell df_2 (index df_2 ! 0) in
        Inr (df\<lparr>cell := (cell df)(index df ! 0 :=
               \<lparr>sym = (\<lambda>s. if s \<in> set (columns df) then sym r_2 s else sym r s),
                Cash = Cash r + Cash r_2\<rparr>)\<rparr>))"

text \<open>
  \<^verbatim>\<open>edit_data_3_rows\<close> (lines 82-84), for a row number below the number of rows. The
  source calls it with \<open>1 \<le> index\<close> only; at \<open>index = 0\<close> the row \<^verbatim>\<open>index - 1\<close> would be
  Python's row \<open>- 1\<close>, the last row.
\<close>

definition edit_data_3_rows :: "frame \<Rightarrow> frame \<Rightarrow> nat \<Rightarrow> frame" where
  "edit_data_3_rows df df_2 k =
     (let r = cell df (index df ! k);
          r_prev = cell df (index df ! (if k = 0 then length (index df) - 1 else k - 1));
          r_2 = cell df_2 (index df_2 ! k) in
      df\<lparr>cell := (cell df)(index df ! k :=
            \<lparr>sym = (\<lambda>s. if s \<in> set (columns df) then sym r_2 s + sym r_prev s else sym r s),
             Cash = Cash r_2 + Cash r_prev\<rparr>)\<rparr>)"

text \<open>The loop of lines 86-87 over \<^verbatim>\<open>np.arange(1, len(data_3))\<close>.\<close>

definition edit_all_rows :: "frame \<Rightarrow> frame \<Rightarrow> frame" where
  "edit_all_rows df df_2 =
     foldl (\<lambda>df k. edit_data_3_rows df df_2 k) df [1..<length (index df)]"

text \<open>\<^verbatim>\<open>(data_1 * data_3).sum(axis = 1)\<close> (line 89).\<close>

definition row_value :: "symbol list \<Rightarrow> row \<Rightarrow> row \<Rightarrow> real" where
  "row_value symbols r_1 r_3 =
     sum_list (map (\<lambda>s. sym r_1 s * sym r_3 s) symbols) + Cash r_1 * Cash r_3"

definition times_sum :: "frame \<Rightarrow> frame \<Rightarrow> series" where
  "times_sum df_1 df_3 =
     map (\<lambda>d. (d, row_value (columns df_1) (cell df_1 d) (cell df_3 d))) (index df_1)"

section \<open>\<^verbatim>\<open>compute_portvals\<close>\<close>

text \<open>The frames the function builds, and the series it returns.\<close>

record locals =
  data_1 :: frame
  data_2 :: frame
  data_3 :: frame
  port_vals :: series

definition compute_portvals_locals ::
  "provider \<Rightarrow> order_row list \<Rightarrow> real \<Rightarrow> real \<Rightarrow> real \<Rightarrow> error + locals" where
  "compute_portvals_locals P orders_df start_val commission impact =
     (if orders_df = [] then Inl IndexError
      else case parse_date (Date (hd orders_df)) of Inl e \<Rightarrow> Inl e | Inr begin_date \<Rightarrow>
      (case parse_date (Date (last orders_df)) of Inl e \<Rightarrow> Inl e | Inr end_date \<Rightarrow>
      (let unique_symbols = unique (map Symbol orders_df) in
      (case get_data P unique_symbols (begin_date - 1) end_date of Inl e \<Rightarrow> Inl e | Inr fetched \<Rightarrow>
      (let d_1 = set_Cash 1 fetched;
           d_2 = set_columns unique_symbols 0 (set_Cash 0 fetched) in
      (case iloc_set_Cash (set_Cash 0 fetched) 0 start_val of Inl e \<Rightarrow> Inl e | Inr d_3 \<Rightarrow>
      (let d_3 = set_columns unique_symbols 0 d_3 in
      (case book_orders d_2 d_1 impact commission orders_df of Inl e \<Rightarrow> Inl e | Inr d_2 \<Rightarrow>
      (case first_row d_3 d_2 of Inl e \<Rightarrow> Inl e | Inr d_3 \<Rightarrow>
      (let d_3 = edit_all_rows d_3 d_2 in
       Inr \<lparr>data_1 = d_1, data_2 = d_2, data_3 = d_3,
            port_vals = times_sum d_1 d_3\<rparr>))))))))))"

definition compute_portvals ::
  "provider \<Rightarrow> order_row list \<Rightarrow> real \<Rightarrow> real \<Rightarrow> real \<Rightarrow> error + series" where
  "compute_portvals P orders_df start_val commission impact =
     map_sum id port_vals (compute_portvals_locals P orders_df start_val commission impact)"

section \<open>The specification's cost model and ledger\<close>

text \<open>
  Section 4.2 of the specification, in its words: a SELL changes the position by
  \<open>- shares\<close> and the cash by \<open>shares * price * (1 - impact) - commission\<close>; a BUY changes
  the position by \<open>+ shares\<close> and the cash by \<open>- shares * price * (1 + impact) - commission\<close>.
  The source books every row whose \<^verbatim>\<open>Order\<close> cell is not \<^verbatim>\<open>'SELL'\<close> as a BUY, so
  the second case stands for every other side.
\<close>

definition delta_position :: "order_row \<Rightarrow> real" where
  "delta_position order = (if Order order = Some ''SELL'' then - Shares order else Shares order)"

definition delta_cash :: "real \<Rightarrow> real \<Rightarrow> real \<Rightarrow> order_row \<Rightarrow> real" where
  "delta_cash p impact commission order =
     (if Order order = Some ''SELL''
      then Shares order * p * (1 - impact) - commission
      else - (Shares order * p * (1 + impact)) - commission)"

text \<open>The orders of one day: the rows dated \<open>d\<close> that have a side.\<close>

definition on_day :: "date \<Rightarrow> order_row list \<Rightarrow> order_row list" where
  "on_day d os = filter (\<lambda>order. Order order \<noteq> None \<and> Date order = Day d) os"

text \<open>
  Section 4.3 of the specification, in its words: the orders are applied one after the
  other in the order of the table (a sequential fold), each by the cost model of its
  side. A row without a side is no order.
\<close>

fun apply_in_order ::
  "frame \<Rightarrow> frame \<Rightarrow> real \<Rightarrow> real \<Rightarrow> order_row list \<Rightarrow> error + frame" where
  "apply_in_order df df_2 impact commission [] = Inr df"
| "apply_in_order df df_2 impact commission (order # orders) =
     (case Order order of
        None \<Rightarrow> apply_in_order df df_2 impact commission orders
      | Some side \<Rightarrow>
          (case calculate_data_2 df df_2 (Date order) (Symbol order) (Shares order)
                  impact commission (if side = ''SELL'' then 1 else - 1) of
             Inl e \<Rightarrow> Inl e
           | Inr df' \<Rightarrow> apply_in_order df' df_2 impact commission orders))"

text \<open>The orders up to a day: the rows that have a side and a date on or before \<open>d\<close>.\<close>

definition orders_upto :: "date \<Rightarrow> order_row list \<Rightarrow> order_row list" where
  "orders_upto d os =
     filter (\<lambda>order. Order order \<noteq> None \<and>
                     (case Date order of Day d' \<Rightarrow> d' \<le> d | _ \<Rightarrow> False)) os"

text \<open>
  The days the source values: the provider's days from the day before the date of the
  first row to the date of the last row of the order table.
\<close>

definition window :: "provider \<Rightarrow> order_row list \<Rightarrow> date list" where
  "window P os =
     (case Date (hd os) of
        Day b \<Rightarrow> (case Date (last os) of
                    Day e \<Rightarrow> filter (trading P) [b - 1..e]
                  | _ \<Rightarrow> [])
      | _ \<Rightarrow> [])"

text \<open>The price an order trades at: the provider's price of its symbol on its date.\<close>

definition order_price :: "provider \<Rightarrow> order_row \<Rightarrow> real" where
  "order_price P order = (case Date order of Day d \<Rightarrow> price P d (Symbol order) | _ \<Rightarrow> 0)"

text \<open>
  The ledger of section 3 of the specification on day \<open>d\<close>: zero positions and the
  starting cash, updated by the changes of every order dated on or before \<open>d\<close>; and the
  value of the snapshot, cash plus positions at the prices of the day.
\<close>

definition position_on :: "order_row list \<Rightarrow> date \<Rightarrow> symbol \<Rightarrow> real" where
  "position_on os d s =
     0 + (\<Sum>order\<leftarrow>filter (\<lambda>order. Symbol order = s) (orders_upto d os). delta_position order)"

definition cash_on :: "provider \<Rightarrow> real \<Rightarrow> real \<Rightarrow> real \<Rightarrow> order_row list \<Rightarrow> date \<Rightarrow> real" where
  "cash_on P start_val commission impact os d =
     start_val
     + (\<Sum>order\<leftarrow>orders_upto d os. delta_cash (order_price P order) impact commission order)"

definition snapshot_value ::
  "provider \<Rightarrow> real \<Rightarrow> real \<Rightarrow> real \<Rightarrow> order_row list \<Rightarrow> date \<Rightarrow> real" where
  "snapshot_value P start_val commission impact os d =
     cash_on P start_val commission impact os d
     + (\<Sum>s\<leftarrow>unique (map Symbol os). position_on os d s * price P d s)"

text \<open>
  The order tables on which the source returns a series: the table is not empty, the
  dates of its first and last row are days, the provider knows every symbol, it has a
  day in the window, and every row that has a side is dated on a day of the window.
\<close>

definition accepted :: "provider \<Rightarrow> order_row list \<Rightarrow> bool" where
  "accepted P os =
     (os \<noteq> []
      \<and> Date (hd os) \<noteq> NotADate \<and> Date (hd os) \<noteq> ShortDate
      \<and> Date (last os) \<noteq> NotADate \<and> Date (last os) \<noteq> ShortDate
      \<and> (\<forall>order \<in> set os. Symbol order \<in> set (universe P))
      \<and> window P os \<noteq> []
      \<and> (\<forall>order \<in> set os. Order order \<noteq> None \<longrightarrow>
            (\<exists>d \<in> set (window P os). Date order = Day d)))"

text \<open>The orders after day \<open>d0\<close> up to day \<open>d\<close>.\<close>

definition orders_between :: "date \<Rightarrow> date \<Rightarrow> order_row list \<Rightarrow> order_row list" where
  "orders_between d0 d os =
     filter (\<lambda>order. Order order \<noteq> None \<and>
                     (case Date order of Day d' \<Rightarrow> d0 < d' \<and> d' \<le> d | _ \<Rightarrow> False)) os"

text \<open>
  The exception of the source on an order table that is not accepted: the IndexError
  of line 27 on the empty table; else the exception of lines 27-28 on the date of the
  first row; else the exception of lines 30-31 on the date of the last row; else the
  provider's exception for an unknown symbol (line 35); else the IndexError of line 44
  when the provider has no day in the window; else the KeyError of lines 48-49.
\<close>

definition failure :: "provider \<Rightarrow> order_row list \<Rightarrow> error" where
  "failure P os =
     (if os = [] then IndexError
      else case parse_date (Date (hd os)) of
        Inl e \<Rightarrow> e
      | Inr b \<Rightarrow>
         (case parse_date (Date (last os)) of
            Inl e \<Rightarrow> e
          | Inr e \<Rightarrow>
              if \<exists>order \<in> set os. Symbol order \<notin> set (universe P) then UnknownSymbolError
              else if window P os = [] then IndexError
              else KeyError))"

section \<open>Auxiliary notions for the proofs\<close>

text \<open>A row can be booked when both tables have its date and its symbol.\<close>

definition bookable :: "frame \<Rightarrow> frame \<Rightarrow> order_row \<Rightarrow> bool" where
  "bookable df df_2 order =
     ((case Date order of
         Day d \<Rightarrow> d \<in> set (index df) \<and> d \<in> set (index df_2)
       | _ \<Rightarrow> False)
      \<and> Symbol order \<in> set (columns df) \<and> Symbol order \<in> set (columns df_2))"

text \<open>The changes one pass of \<open>apply_rows\<close> makes to a cell, and the frame it leaves.\<close>

definition d_sym :: "real \<Rightarrow> order_row list \<Rightarrow> date \<Rightarrow> symbol \<Rightarrow> real" where
  "d_sym b os d s =
     (\<Sum>order\<leftarrow>filter (\<lambda>order. Date order = Day d \<and> Symbol order = s) os. - b * Shares order)"

definition d_Cash :: "frame \<Rightarrow> real \<Rightarrow> real \<Rightarrow> real \<Rightarrow> order_row list \<Rightarrow> date \<Rightarrow> real" where
  "d_Cash df_2 impact commission b os d =
     (\<Sum>order\<leftarrow>filter (\<lambda>order. Date order = Day d) os.
        sym (cell df_2 d) (Symbol order) * Shares order * (b - impact) - commission)"

definition booked :: "frame \<Rightarrow> frame \<Rightarrow> real \<Rightarrow> real \<Rightarrow> real \<Rightarrow> order_row list \<Rightarrow> frame" where
  "booked df df_2 impact commission b os =
     df\<lparr>cell := (\<lambda>d. (cell df d)\<lparr>sym := (\<lambda>s. sym (cell df d) s + d_sym b os d s),
                                 Cash := Cash (cell df d) + d_Cash df_2 impact commission b os d\<rparr>)\<rparr>"

text \<open>The frame after all orders of a table are booked.\<close>

definition ledger_after :: "frame \<Rightarrow> frame \<Rightarrow> real \<Rightarrow> real \<Rightarrow> order_row list \<Rightarrow> frame" where
  "ledger_after df df_2 impact commission os =
     df\<lparr>cell := (\<lambda>d. (cell df d)
        \<lparr>sym := (\<lambda>s. sym (cell df d) s
                  + (\<Sum>order\<leftarrow>filter (\<lambda>order. Symbol order = s) (on_day d os).
                       delta_position order)),
         Cash := Cash (cell df d)
                  + (\<Sum>order\<leftarrow>on_day d os.
                       delta_cash (sym (cell df_2 d) (Symbol order)) impact commission order)\<rparr>)\<rparr>"

text \<open>The loop of lines 86-87 stopped before row \<open>m\<close>.\<close>

definition loop :: "frame \<Rightarrow> frame \<Rightarrow> nat \<Rightarrow> frame" where
  "loop df df_2 m = foldl (\<lambda>df k. edit_data_3_rows df df_2 k) df [1..<m]"

section \<open>Example inputs\<close>

text \<open>
  A provider with prices for JPM and IBM on the days 0 to 10 except day 3; JPM closes
  at 50 up to day 1 and at 52 afterwards, IBM at 10.
\<close>

definition P0 :: provider where
  "P0 = \<lparr>trading = (\<lambda>d. 0 \<le> d \<and> d \<le> 10 \<and> d \<noteq> 3),
         universe = [''JPM'', ''IBM''],
         price = (\<lambda>d s. if s = ''JPM'' then (if d \<le> 1 then 50 else 52) else 10)\<rparr>"

definition buy_1 :: order_row where
  "buy_1 = \<lparr>Date = Day 1, Symbol = ''JPM'', Order = Some ''BUY'', Shares = 1000\<rparr>"

definition sell_1 :: order_row where
  "sell_1 = \<lparr>Date = Day 1, Symbol = ''JPM'', Order = Some ''SELL'', Shares = 1000\<rparr>"

definition sell_2 :: order_row where
  "sell_2 = \<lparr>Date = Day 2, Symbol = ''JPM'', Order = Some ''SELL'', Shares = 1000\<rparr>"

definition last_2 :: order_row where
  "last_2 = \<lparr>Date = Day 2, Symbol = ''JPM'', Order = None, Shares = 0\<rparr>"

definition ibm_buy_1 :: order_row where
  "ibm_buy_1 = \<lparr>Date = Day 1, Symbol = ''IBM'', Order = Some ''BUY'', Shares = 100\<rparr>"

definition ibm_sell_2 :: order_row where
  "ibm_sell_2 = \<lparr>Date = Day 2, Symbol = ''IBM'', Order = Some ''SELL'', Shares = 100\<rparr>"

definition ibm_last_2 :: order_row where
  "ibm_last_2 = \<lparr>Date = Day 2, Symbol = ''IBM'', Order = None, Shares = 0\<rparr>"






text \<open>The tables \<^verbatim>\<open>data_1\<close> and \<^verbatim>\<open>data_2\<close> for JPM on the days 1 and 2, before any order is booked.\<close>

definition prices_12 :: frame where
  "prices_12 = set_Cash 1 \<lparr>p_index = [1, 2], p_columns = [''JPM''], p_cell = price P0\<rparr>"

definition changes_12 :: frame where
  "changes_12 =
     set_columns [''JPM''] 0
       (set_Cash 0 \<lparr>p_index = [1, 2], p_columns = [''JPM''], p_cell = price P0\<rparr>)"

section \<open>Booking orders\<close>

lemma index_booked [simp]: "index (booked df df_2 i c b os) = index df"
  and columns_booked [simp]: "columns (booked df df_2 i c b os) = columns df"
  by (simp_all add: booked_def)

lemma bookable_booked [simp]:
  "bookable (booked df df_2 i c b os) df_2 order = bookable df df_2 order"
  by (simp add: bookable_def split: date_cell.splits)

lemma booked_Nil [simp]: "booked df df_2 i c b [] = df"
  by (simp add: booked_def d_sym_def d_Cash_def)

lemma calculate_data_2_Inr:
  assumes "bookable df df_2 order"
  shows "calculate_data_2 df df_2 (Date order) (Symbol order) (Shares order) impact commission b
         = Inr (booked df df_2 impact commission b [order])"
proof -
  from assms obtain d where d: "Date order = Day d" "d \<in> set (index df)" "d \<in> set (index df_2)"
    by (auto simp add: bookable_def split: date_cell.splits)
  from assms have s: "Symbol order \<in> set (columns df)" "Symbol order \<in> set (columns df_2)"
    by (simp_all add: bookable_def)
  have "cell (booked df df_2 impact commission b [order]) =
        (cell df)(d := (cell df d)
           \<lparr>sym := (sym (cell df d))
                     (Symbol order := sym (cell df d) (Symbol order) + - b * Shares order),
            Cash := Cash (cell df d)
                     + (sym (cell df_2 d) (Symbol order) * Shares order * (b - impact))
                     - commission\<rparr>)"
    using d by (auto simp add: booked_def d_sym_def d_Cash_def fun_eq_iff)
  then show ?thesis using d s
    by (simp add: calculate_data_2_def loc_get_def loc_get_Cash_def booked_def)
qed

lemma calculate_data_2_Inl:
  assumes "\<not> bookable df df_2 order"
  shows "calculate_data_2 df df_2 (Date order) (Symbol order) shares impact commission b
         = Inl KeyError"
  using assms
  by (cases "Date order")
     (auto simp add: calculate_data_2_def loc_get_def loc_get_Cash_def bookable_def)

lemma booked_booked:
  "booked (booked df df_2 i c b [order]) df_2 i c b os = booked df df_2 i c b (order # os)"
  by (auto simp add: booked_def d_sym_def d_Cash_def fun_eq_iff)

lemma apply_rows_Inr:
  "\<forall>order \<in> set os. bookable df df_2 order \<Longrightarrow>
   apply_rows df df_2 i c b os = Inr (booked df df_2 i c b os)"
proof (induction os arbitrary: df)
  case Nil
  then show ?case by simp
next
  case (Cons order os)
  then show ?case
    by (simp add: calculate_data_2_Inr booked_booked)
qed

lemma apply_rows_Inl:
  "\<exists>order \<in> set os. \<not> bookable df df_2 order \<Longrightarrow>
   apply_rows df df_2 i c b os = Inl KeyError"
proof (induction os arbitrary: df)
  case Nil
  then show ?case by simp
next
  case (Cons order os)
  show ?case
  proof (cases "bookable df df_2 order")
    case True
    with Cons.prems
    have "\<exists>order \<in> set os. \<not> bookable (booked df df_2 i c b [order]) df_2 order"
      by auto
    then show ?thesis using True Cons.IH
      by (simp add: calculate_data_2_Inr)
  next
    case False
    then show ?thesis by (simp add: calculate_data_2_Inl)
  qed
qed

lemma d_sym_sell_buy:
  "d_sym 1 (sell_orders os) d s + d_sym (- 1) (buy_orders os) d s
   = (\<Sum>order\<leftarrow>filter (\<lambda>order. Symbol order = s) (on_day d os). delta_position order)"
  by (induction os)
     (auto simp add: d_sym_def sell_orders_def buy_orders_def on_day_def delta_position_def)

lemma d_Cash_sell_buy:
  "d_Cash df_2 i c 1 (sell_orders os) d + d_Cash df_2 i c (- 1) (buy_orders os) d
   = (\<Sum>order\<leftarrow>on_day d os. delta_cash (sym (cell df_2 d) (Symbol order)) i c order)"
  by (induction os)
     (auto simp add: d_Cash_def sell_orders_def buy_orders_def on_day_def delta_cash_def
        algebra_simps)

lemma book_orders_Inr:
  assumes "\<forall>order \<in> set os. Order order \<noteq> None \<longrightarrow> bookable df df_2 order"
  shows "book_orders df df_2 i c os
         = Inr (booked (booked df df_2 i c 1 (sell_orders os)) df_2 i c (- 1) (buy_orders os))"
proof -
  have "\<forall>order \<in> set (sell_orders os). bookable df df_2 order"
    using assms by (auto simp add: sell_orders_def)
  moreover have "\<forall>order \<in> set (buy_orders os).
      bookable (booked df df_2 i c 1 (sell_orders os)) df_2 order"
    using assms by (auto simp add: buy_orders_def)
  ultimately show ?thesis
    by (simp add: book_orders_def apply_rows_Inr)
qed

lemma book_orders_Inl:
  assumes "\<exists>order \<in> set os. Order order \<noteq> None \<and> \<not> bookable df df_2 order"
  shows "book_orders df df_2 i c os = Inl KeyError"
proof (cases "\<forall>order \<in> set (sell_orders os). bookable df df_2 order")
  case True
  with assms have "\<exists>order \<in> set (buy_orders os).
      \<not> bookable (booked df df_2 i c 1 (sell_orders os)) df_2 order"
    by (auto simp add: sell_orders_def buy_orders_def)
  then show ?thesis using True
    by (simp add: book_orders_def apply_rows_Inr apply_rows_Inl)
next
  case False
  then show ?thesis by (simp add: book_orders_def apply_rows_Inl)
qed

lemma book_orders_cell:
  assumes "book_orders df df_2 i c os = Inr df'"
  shows "index df' = index df" "columns df' = columns df"
    "Cash (cell df' d) = Cash (cell df d)
       + (\<Sum>order\<leftarrow>on_day d os. delta_cash (sym (cell df_2 d) (Symbol order)) i c order)"
    "sym (cell df' d) s = sym (cell df d) s
       + (\<Sum>order\<leftarrow>filter (\<lambda>order. Symbol order = s) (on_day d os). delta_position order)"
proof -
  have all: "\<forall>order \<in> set os. Order order \<noteq> None \<longrightarrow> bookable df df_2 order"
    using assms book_orders_Inl [of os df df_2 i c] by auto
  have eq: "df' = booked (booked df df_2 i c 1 (sell_orders os)) df_2 i c (- 1) (buy_orders os)"
    using assms book_orders_Inr [OF all, of i c] by simp
  show "index df' = index df" "columns df' = columns df" by (simp_all add: eq)
  show "Cash (cell df' d) = Cash (cell df d)
       + (\<Sum>order\<leftarrow>on_day d os. delta_cash (sym (cell df_2 d) (Symbol order)) i c order)"
    using d_Cash_sell_buy [of df_2 i c os d] by (simp add: eq booked_def)
  show "sym (cell df' d) s = sym (cell df d) s
       + (\<Sum>order\<leftarrow>filter (\<lambda>order. Symbol order = s) (on_day d os). delta_position order)"
    using d_sym_sell_buy [of os d s] by (simp add: eq booked_def)
qed

text \<open>
  C2. An order whose date is a row and whose symbol is a column of both tables is
  booked without error, and it changes the cell of its date and symbol by \<open>+ shares\<close>
  and the cash of its date by \<open>- shares * price * (1 + impact) - commission\<close> when it is
  a BUY, and by \<open>- shares\<close> and \<open>+ shares * price * (1 - impact) - commission\<close> when it is
  a SELL, where the price is the one of the price table at that date and symbol. The
  signs and sizes of shares, price, commission and impact play no role.
\<close>

theorem cost_model_deltas:
  assumes "Date order = Day d"
    and "d \<in> set (index df)" and "d \<in> set (index df_2)"
    and "Symbol order \<in> set (columns df)" and "Symbol order \<in> set (columns df_2)"
  shows "\<exists>df'. book_orders df df_2 impact commission [order] = Inr df' \<and>
     (Order order = Some ''BUY'' \<longrightarrow>
        sym (cell df' d) (Symbol order) - sym (cell df d) (Symbol order) = Shares order \<and>
        Cash (cell df' d) - Cash (cell df d)
          = - (Shares order * sym (cell df_2 d) (Symbol order) * (1 + impact)) - commission) \<and>
     (Order order = Some ''SELL'' \<longrightarrow>
        sym (cell df' d) (Symbol order) - sym (cell df d) (Symbol order) = - Shares order \<and>
        Cash (cell df' d) - Cash (cell df d)
          = Shares order * sym (cell df_2 d) (Symbol order) * (1 - impact) - commission)"
proof -
  have "bookable df df_2 order"
    using assms by (simp add: bookable_def)
  then have "\<forall>x \<in> set [order]. Order x \<noteq> None \<longrightarrow> bookable df df_2 x"
    by simp
  from book_orders_Inr [OF this, of impact commission]
  obtain df' where df': "book_orders df df_2 impact commission [order] = Inr df'"
    by blast
  have "Order order = Some ''BUY'' \<Longrightarrow>
        sym (cell df' d) (Symbol order) - sym (cell df d) (Symbol order) = Shares order \<and>
        Cash (cell df' d) - Cash (cell df d)
          = - (Shares order * sym (cell df_2 d) (Symbol order) * (1 + impact)) - commission"
    using book_orders_cell(3,4) [OF df', of d] assms(1)
    by (simp add: on_day_def delta_cash_def delta_position_def)
  moreover have "Order order = Some ''SELL'' \<Longrightarrow>
        sym (cell df' d) (Symbol order) - sym (cell df d) (Symbol order) = - Shares order \<and>
        Cash (cell df' d) - Cash (cell df d)
          = Shares order * sym (cell df_2 d) (Symbol order) * (1 - impact) - commission"
    using book_orders_cell(3,4) [OF df', of d] assms(1)
    by (simp add: on_day_def delta_cash_def delta_position_def)
  ultimately show ?thesis using df' by blast
qed

theorem cost_model_deltas_witness:
  "Date buy_1 = Day 1 \<and> 1 \<in> set (index changes_12) \<and> 1 \<in> set (index prices_12)
   \<and> Symbol buy_1 \<in> set (columns changes_12) \<and> Symbol buy_1 \<in> set (columns prices_12)
   \<and> (\<exists>df'. book_orders changes_12 prices_12 (1 / 200) (199 / 20) [buy_1] = Inr df' \<and>
          sym (cell df' 1) ''JPM'' = 1000 \<and> Cash (cell df' 1) = - 50259.95)"
proof -
  have h: "Date buy_1 = Day 1" "1 \<in> set (index changes_12)" "1 \<in> set (index prices_12)"
    "Symbol buy_1 \<in> set (columns changes_12)" "Symbol buy_1 \<in> set (columns prices_12)"
    by (simp_all add: changes_12_def prices_12_def buy_1_def set_Cash_def set_columns_def)
  from cost_model_deltas [OF h, of "1 / 200" "199 / 20"]
  show ?thesis using h
    by (auto simp add: changes_12_def prices_12_def buy_1_def set_Cash_def set_columns_def
        P0_def)
qed

section \<open>The empty order table\<close>

text \<open>
  C8, as the source has it. On an empty order table the read of row 0 in line 27
  raises IndexError, whatever the other arguments are; no series is returned.
\<close>

theorem empty_orders_IndexError:
  "compute_portvals P [] start_val commission impact = Inl IndexError"
  by (simp add: compute_portvals_def compute_portvals_locals_def)

theorem empty_orders_IndexError_witness:
  "compute_portvals P0 [] 100000 (199 / 20) (1 / 200) = Inl IndexError"
  using empty_orders_IndexError [of P0 100000 "199 / 20" "1 / 200"] .

text \<open>C8 as stated fails: the error is not the specification's EmptyOrderListError.\<close>

theorem empty_orders_counterexample:
  "compute_portvals P0 [] 100000 (199 / 20) (1 / 200) = Inl IndexError
   \<and> compute_portvals P0 [] 100000 (199 / 20) (1 / 200) \<noteq> Inl EmptyOrderListError"
  by (simp add: compute_portvals_def compute_portvals_locals_def)

section \<open>Sums over the orders of a day and the orders up to a day\<close>

lemma sum_list_filter_split:
  fixes f :: "'a \<Rightarrow> real"
  assumes "\<forall>x \<in> set xs. P x \<longleftrightarrow> (Q x \<or> R x)" "\<forall>x \<in> set xs. \<not> (Q x \<and> R x)"
  shows "(\<Sum>x\<leftarrow>filter P xs. f x) = (\<Sum>x\<leftarrow>filter Q xs. f x) + (\<Sum>x\<leftarrow>filter R xs. f x)"
  using assms by (induction xs) auto

lemma strict_nth_le:
  assumes "sorted_wrt (<) (idx :: int list)" "j < length idx" "m < length idx"
  shows "idx ! j \<le> idx ! m \<longleftrightarrow> j \<le> m"
proof
  assume le: "idx ! j \<le> idx ! m"
  show "j \<le> m"
  proof (rule ccontr)
    assume "\<not> j \<le> m"
    then have "m < j" by simp
    then have "idx ! m < idx ! j"
      using assms(1,2) by (simp add: sorted_wrt_iff_nth_less)
    with le show False by simp
  qed
next
  assume "j \<le> m"
  then have "j = m \<or> j < m" by auto
  then show "idx ! j \<le> idx ! m"
    using assms(1,3) by (auto simp add: sorted_wrt_iff_nth_less less_imp_le)
qed

lemma upto_first:
  assumes "sorted_wrt (<) (idx :: int list)" "d \<in> set idx"
  shows "d \<le> idx ! 0 \<longleftrightarrow> d = idx ! 0"
proof -
  from assms(2) obtain j where j: "j < length idx" "d = idx ! j"
    by (auto simp add: in_set_conv_nth)
  then have "0 < length idx" by auto
  from strict_nth_le [OF assms(1) j(1) this] have "d \<le> idx ! 0 \<longleftrightarrow> j = 0"
    using j by simp
  then show ?thesis using j by auto
qed

lemma upto_step:
  assumes "sorted_wrt (<) (idx :: int list)" "Suc k < length idx" "d \<in> set idx"
  shows "d \<le> idx ! Suc k \<longleftrightarrow> (d \<le> idx ! k \<or> d = idx ! Suc k)"
    and "\<not> (d \<le> idx ! k \<and> d = idx ! Suc k)"
proof -
  from assms(3) obtain j where j: "j < length idx" "d = idx ! j"
    by (auto simp add: in_set_conv_nth)
  have k: "k < length idx" using assms(2) by simp
  have a: "d \<le> idx ! Suc k \<longleftrightarrow> j \<le> Suc k"
    using strict_nth_le [OF assms(1) j(1) assms(2)] j by simp
  have b: "d \<le> idx ! k \<longleftrightarrow> j \<le> k"
    using strict_nth_le [OF assms(1) j(1) k] j by simp
  have c: "idx ! k < idx ! Suc k"
    using assms(1,2) by (simp add: sorted_wrt_iff_nth_less)
  show "d \<le> idx ! Suc k \<longleftrightarrow> (d \<le> idx ! k \<or> d = idx ! Suc k)"
    using a b j by (auto simp add: le_Suc_eq)
  show "\<not> (d \<le> idx ! k \<and> d = idx ! Suc k)"
    using c by auto
qed

lemma sum_on_day_upto:
  fixes f :: "order_row \<Rightarrow> real"
  assumes "sorted_wrt (<) idx" "k < length idx"
    and "\<forall>order \<in> set os. Order order \<noteq> None \<longrightarrow> (\<exists>d \<in> set idx. Date order = Day d)"
  shows "(\<Sum>j\<le>k. \<Sum>order\<leftarrow>filter Q (on_day (idx ! j) os). f order)
         = (\<Sum>order\<leftarrow>filter Q (orders_upto (idx ! k) os). f order)"
  using assms(2)
proof (induction k)
  case 0
  have "filter Q (on_day (idx ! 0) os) = filter Q (orders_upto (idx ! 0) os)"
    unfolding on_day_def orders_upto_def filter_filter
    by (rule filter_cong) (use assms(1,3) upto_first in \<open>auto split: date_cell.splits\<close>)
  then show ?case by simp
next
  case (Suc k)
  have "(\<Sum>order\<leftarrow>filter Q (orders_upto (idx ! Suc k) os). f order)
      = (\<Sum>order\<leftarrow>filter Q (orders_upto (idx ! k) os). f order)
        + (\<Sum>order\<leftarrow>filter Q (on_day (idx ! Suc k) os). f order)"
    unfolding on_day_def orders_upto_def filter_filter
    apply (rule sum_list_filter_split)
    subgoal
      using assms(3) upto_step(1) [OF assms(1) Suc.prems]
      by (auto split: date_cell.splits)
    subgoal
      using assms(3) upto_step(2) [OF assms(1) Suc.prems] nth_mem [OF Suc.prems]
      by (auto split: date_cell.splits)
    done
  then show ?case using Suc by simp
qed

section \<open>The loop over the rows\<close>

lemma loop_1 [simp]: "loop df df_2 (Suc 0) = df"
  by (simp add: loop_def)

lemma loop_Suc: "1 \<le> m \<Longrightarrow> loop df df_2 (Suc m) = edit_data_3_rows (loop df df_2 m) df_2 m"
  by (simp add: loop_def)

lemma index_edit [simp]: "index (edit_data_3_rows df df_2 k) = index df"
  and columns_edit [simp]: "columns (edit_data_3_rows df df_2 k) = columns df"
  by (simp_all add: edit_data_3_rows_def Let_def)

lemma index_loop [simp]: "1 \<le> m \<Longrightarrow> index (loop df df_2 m) = index df"
  and columns_loop [simp]: "1 \<le> m \<Longrightarrow> columns (loop df df_2 m) = columns df"
  by (induction m) (auto simp add: loop_Suc not_less_eq_eq le_Suc_eq)

lemma loop_untouched:
  assumes "distinct (index df)" "1 \<le> m" "m \<le> length (index df)"
  shows "d \<notin> set (take m (index df)) \<or> d = index df ! 0 \<Longrightarrow> cell (loop df df_2 m) d = cell df d"
  using assms(2,3)
proof (induction m)
  case 0
  then show ?case by simp
next
  case (Suc m)
  show ?case
  proof (cases "m = 0")
    case True
    then show ?thesis by simp
  next
    case False
    then have m: "1 \<le> m" "m < length (index df)" using Suc.prems by auto
    have "0 < length (index df)" using m by (cases "index df") simp_all
    then have "index df ! m \<noteq> index df ! 0"
      using m assms(1) False by (simp add: nth_eq_iff_index_eq)
    then have "d \<noteq> index df ! m"
      using Suc.prems(1) m
      by (auto simp add: take_Suc_conv_app_nth)
    moreover have "d \<notin> set (take m (index df)) \<or> d = index df ! 0"
      using Suc.prems(1) m by (auto simp add: take_Suc_conv_app_nth)
    ultimately show ?thesis
      using Suc.IH m by (simp add: loop_Suc edit_data_3_rows_def Let_def)
  qed
qed

lemma loop_step:
  assumes "distinct (index df)" "1 \<le> k" "k < m" "m \<le> length (index df)"
  shows "Cash (cell (loop df df_2 m) (index df ! k))
           = Cash (cell df_2 (index df_2 ! k)) + Cash (cell (loop df df_2 m) (index df ! (k - 1)))
       \<and> sym (cell (loop df df_2 m) (index df ! k)) s
           = (if s \<in> set (columns df)
              then sym (cell df_2 (index df_2 ! k)) s + sym (cell (loop df df_2 m) (index df ! (k - 1))) s
              else sym (cell df (index df ! k)) s)"
  using assms(3,4)
proof (induction m)
  case 0
  then show ?case by simp
next
  case (Suc m)
  have m: "1 \<le> m" "m < length (index df)" using Suc.prems assms(2) by auto
  have neq: "index df ! (k - 1) \<noteq> index df ! m" if "k \<le> m"
    using that m assms(1,2) by (simp add: nth_eq_iff_index_eq)
  have unt: "cell (loop df df_2 m) (index df ! m) = cell df (index df ! m)"
    using m assms(1) by (intro loop_untouched) (auto simp add: in_set_conv_nth nth_eq_iff_index_eq)
  show ?case
  proof (cases "k = m")
    case True
    then show ?thesis using m neq unt by (simp add: loop_Suc edit_data_3_rows_def Let_def)
  next
    case False
    then have "k < m" using Suc.prems by simp
    moreover have "index df ! k \<noteq> index df ! m"
      using \<open>k < m\<close> m assms(1) by (simp add: nth_eq_iff_index_eq)
    ultimately show ?thesis using Suc.IH m neq
      by (simp add: loop_Suc edit_data_3_rows_def Let_def)
  qed
qed

lemma edit_all_rows_loop: "edit_all_rows df df_2 = loop df df_2 (length (index df))"
  by (simp add: edit_all_rows_def loop_def)

lemma first_row_Inr:
  assumes "first_row df0 df_2 = Inr df"
  shows "index df = index df0" "columns df = columns df0" "index df0 \<noteq> []"
    "Cash (cell df (index df0 ! 0)) = Cash (cell df0 (index df0 ! 0)) + Cash (cell df_2 (index df_2 ! 0))"
    "s \<in> set (columns df0) \<Longrightarrow> sym (cell df (index df0 ! 0)) s = sym (cell df_2 (index df_2 ! 0)) s"
    "s \<notin> set (columns df0) \<Longrightarrow> sym (cell df d) s = sym (cell df0 d) s"
    "d \<noteq> index df0 ! 0 \<Longrightarrow> cell df d = cell df0 d"
  using assms by (auto simp add: first_row_def Let_def split: if_splits)

lemma running_sum:
  assumes "distinct (index df0)" "index df_2 = index df0" "first_row df0 df_2 = Inr df"
    and "k < length (index df0)"
  shows "Cash (cell (edit_all_rows df df_2) (index df0 ! k))
           = Cash (cell df0 (index df0 ! 0)) + (\<Sum>j\<le>k. Cash (cell df_2 (index df0 ! j)))
       \<and> (s \<in> set (columns df0) \<longrightarrow>
            sym (cell (edit_all_rows df df_2) (index df0 ! k)) s
              = (\<Sum>j\<le>k. sym (cell df_2 (index df0 ! j)) s))"
  using assms(4)
proof (induction k)
  case 0
  have "cell (edit_all_rows df df_2) (index df ! 0) = cell df (index df ! 0)"
    unfolding edit_all_rows_loop
    using assms(1) 0 first_row_Inr(1) [OF assms(3)]
    by (intro loop_untouched) (auto simp add: Suc_le_eq)
  then show ?case
    using first_row_Inr(1,4,5) [OF assms(3)] assms(2) by simp
next
  case (Suc k)
  have "1 \<le> Suc k" by simp
  from loop_step [OF _ this, of df "length (index df)" df_2 s]
  show ?case
    using Suc assms(1,2) first_row_Inr(1,2) [OF assms(3)]
    by (simp add: edit_all_rows_loop)
qed

section \<open>The run of compute_portvals on an accepted order table\<close>

lemma set_unique [simp]: "set (unique xs) = set xs"
  and distinct_unique [simp]: "distinct (unique xs)"
  by (simp_all add: unique_def)

lemma window_strict: "sorted_wrt (<) (window P os)"
  by (auto simp add: window_def strict_sorted_iff sorted_wrt_filter split: date_cell.splits)

lemma window_Day:
  "Date (hd os) = Day b \<Longrightarrow> Date (last os) = Day e \<Longrightarrow> window P os = filter (trading P) [b - 1..e]"
  by (simp add: window_def)

lemma accepted_Day:
  assumes "accepted P os"
  shows "\<exists>b e. os \<noteq> [] \<and> Date (hd os) = Day b \<and> Date (last os) = Day e"
  using assms
  by (cases "Date (hd os)"; cases "Date (last os)") (simp_all add: accepted_def)

text \<open>The run up to the booking of the orders.\<close>

lemma compute_portvals_locals_setup:
  assumes "os \<noteq> []" "Date (hd os) = Day b" "Date (last os) = Day e"
    and "\<forall>order \<in> set os. Symbol order \<in> set (universe P)"
    and "window P os \<noteq> []"
  shows "compute_portvals_locals P os sv c i =
     (case book_orders
             (set_columns (unique (map Symbol os)) 0
                (set_Cash 0 \<lparr>p_index = window P os, p_columns = unique (map Symbol os),
                              p_cell = price P\<rparr>))
             (set_Cash 1 \<lparr>p_index = window P os, p_columns = unique (map Symbol os),
                           p_cell = price P\<rparr>) i c os of
        Inl e \<Rightarrow> Inl e
      | Inr d_2 \<Rightarrow>
         (case first_row
                 (set_columns (unique (map Symbol os)) 0
                    ((set_Cash 0 \<lparr>p_index = window P os, p_columns = unique (map Symbol os),
                                   p_cell = price P\<rparr>)
                     \<lparr>cell := (cell (set_Cash 0 \<lparr>p_index = window P os,
                                      p_columns = unique (map Symbol os), p_cell = price P\<rparr>))
                        (window P os ! 0 :=
                           (cell (set_Cash 0 \<lparr>p_index = window P os,
                                      p_columns = unique (map Symbol os), p_cell = price P\<rparr>)
                              (window P os ! 0))\<lparr>Cash := sv\<rparr>)\<rparr>))
                 d_2 of
            Inl e \<Rightarrow> Inl e
          | Inr d_3' \<Rightarrow>
              Inr \<lparr>data_1 = set_Cash 1 \<lparr>p_index = window P os,
                               p_columns = unique (map Symbol os), p_cell = price P\<rparr>,
                   data_2 = d_2, data_3 = edit_all_rows d_3' d_2,
                   port_vals = times_sum (set_Cash 1 \<lparr>p_index = window P os,
                               p_columns = unique (map Symbol os), p_cell = price P\<rparr>)
                                 (edit_all_rows d_3' d_2)\<rparr>))"
  using assms
  by (simp add: compute_portvals_locals_def get_data_def window_Day iloc_set_Cash_def Let_def
      set_Cash_def cong: sum.case_cong)

lemma sum_list_map_cong:
  "(\<And>x. x \<in> set xs \<Longrightarrow> f x = g x) \<Longrightarrow> sum_list (map f xs) = sum_list (map g xs)"
  by (induction xs) auto

lemma on_day_price:
  "(\<Sum>order\<leftarrow>on_day d os. delta_cash (price P d (Symbol order)) i c order)
   = (\<Sum>order\<leftarrow>on_day d os. delta_cash (order_price P order) i c order)"
  by (rule sum_list_map_cong) (simp add: on_day_def order_price_def)

lemma compute_portvals_locals_Inr:
  assumes "accepted P os"
  shows "\<exists>L. compute_portvals_locals P os sv c i = Inr L
     \<and> index (data_1 L) = window P os \<and> columns (data_1 L) = unique (map Symbol os)
     \<and> cell (data_1 L) = (\<lambda>d. \<lparr>sym = price P d, Cash = 1\<rparr>)
     \<and> index (data_3 L) = window P os \<and> columns (data_3 L) = unique (map Symbol os)
     \<and> (\<forall>d \<in> set (window P os).
           Cash (cell (data_3 L) d) = cash_on P sv c i os d
           \<and> (\<forall>s \<in> set (map Symbol os). sym (cell (data_3 L) d) s = position_on os d s))
     \<and> port_vals L = map (\<lambda>d. (d, snapshot_value P sv c i os d)) (window P os)"
proof -
  define syms where "syms = unique (map Symbol os)"
  define idx where "idx = window P os"
  define fetched where "fetched = \<lparr>p_index = idx, p_columns = syms, p_cell = price P\<rparr>"
  define D1 where "D1 = set_Cash 1 fetched"
  define D2i where "D2i = set_columns syms 0 (set_Cash 0 fetched)"
  define D3i where "D3i = set_columns syms 0
                  ((set_Cash 0 fetched)\<lparr>cell := (cell (set_Cash 0 fetched))
                     (idx ! 0 := (cell (set_Cash 0 fetched) (idx ! 0))\<lparr>Cash := sv\<rparr>)\<rparr>)"
  from accepted_Day [OF assms]
  obtain b e where be: "os \<noteq> []" "Date (hd os) = Day b" "Date (last os) = Day e"
    by blast
  from assms have univ: "\<forall>order \<in> set os. Symbol order \<in> set (universe P)"
    and ne: "idx \<noteq> []"
    and dated: "\<forall>order \<in> set os. Order order \<noteq> None \<longrightarrow> (\<exists>d \<in> set idx. Date order = Day d)"
    by (simp_all add: accepted_def idx_def)
  have strict: "sorted_wrt (<) idx" by (simp add: idx_def window_strict)
  then have dist: "distinct idx" by (simp add: strict_sorted_iff)
  have run: "compute_portvals_locals P os sv c i =
      (case book_orders D2i D1 i c os of
           Inl e \<Rightarrow> Inl e
         | Inr d_2 \<Rightarrow>
            (case first_row D3i d_2 of
               Inl e \<Rightarrow> Inl e
             | Inr d_3' \<Rightarrow> Inr \<lparr>data_1 = D1, data_2 = d_2,
                                data_3 = edit_all_rows d_3' d_2,
                                port_vals = times_sum D1 (edit_all_rows d_3' d_2)\<rparr>))"
    unfolding D1_def D2i_def D3i_def fetched_def syms_def idx_def
    by (rule compute_portvals_locals_setup [OF be univ ne [unfolded idx_def]])
  have D1: "index D1 = idx" "columns D1 = syms" "cell D1 = (\<lambda>d. \<lparr>sym = price P d, Cash = 1\<rparr>)"
    by (simp_all add: D1_def set_Cash_def fetched_def)
  have D2i: "index D2i = idx" "columns D2i = syms"
    "\<And>d. Cash (cell D2i d) = 0" "\<And>d s. s \<in> set syms \<Longrightarrow> sym (cell D2i d) s = 0"
    by (simp_all add: D2i_def set_Cash_def set_columns_def fetched_def)
  have D3i: "index D3i = idx" "columns D3i = syms" "Cash (cell D3i (idx ! 0)) = sv"
    by (simp_all add: D3i_def set_Cash_def set_columns_def fetched_def)
  have "\<forall>order \<in> set os. Order order \<noteq> None \<longrightarrow> bookable D2i D1 order"
    using dated by (auto simp add: bookable_def D1 D2i syms_def)
  from book_orders_Inr [OF this, of i c] obtain D2 where D2: "book_orders D2i D1 i c os = Inr D2"
    by blast
  note D2c = book_orders_cell [OF D2]
  have D2_Cash: "Cash (cell D2 d) = (\<Sum>order\<leftarrow>on_day d os. delta_cash (order_price P order) i c order)" for d
    using D2c(3) [of d] on_day_price [where d = d and os = os and P = P and i = i and c = c] by (simp add: D2i D1)
  have D2_sym: "sym (cell D2 d) s
      = (\<Sum>order\<leftarrow>filter (\<lambda>order. Symbol order = s) (on_day d os). delta_position order)"
    if "s \<in> set syms" for d s
    using D2c(4) [of d s] that by (simp add: D2i)
  have "index D2 = idx" using D2c(1) by (simp add: D2i)
  then obtain D3 where D3: "first_row D3i D2 = Inr D3"
    using ne by (auto simp add: first_row_def D3i Let_def)
  define F where "F = edit_all_rows D3 D2"
  have L: "compute_portvals_locals P os sv c i
           = Inr \<lparr>data_1 = D1, data_2 = D2, data_3 = F,
                  port_vals = times_sum D1 F\<rparr>"
    by (simp add: run D2 D3 F_def)
  have F_idx: "index F = idx" "columns F = syms"
    using first_row_Inr(1,2) [OF D3] ne
    by (simp_all add: F_def edit_all_rows_loop D3i Suc_le_eq)
  have F_cell: "Cash (cell F d) = cash_on P sv c i os d
           \<and> (\<forall>s \<in> set syms. sym (cell F d) s = position_on os d s)" if "d \<in> set idx" for d
  proof -
    from that obtain k where k: "k < length idx" "d = idx ! k"
      by (auto simp add: in_set_conv_nth)
    have rs: "Cash (cell F (idx ! k)) = sv + (\<Sum>j\<le>k. Cash (cell D2 (idx ! j)))
       \<and> (s \<in> set syms \<longrightarrow> sym (cell F (idx ! k)) s = (\<Sum>j\<le>k. sym (cell D2 (idx ! j)) s))" for s
      using running_sum [of D3i D2 D3 k s] dist \<open>index D2 = idx\<close> D3 k(1)
      by (simp add: D3i F_def)
    have "(\<Sum>j\<le>k. Cash (cell D2 (idx ! j)))
          = (\<Sum>order\<leftarrow>orders_upto (idx ! k) os. delta_cash (order_price P order) i c order)"
      using sum_on_day_upto [OF strict k(1) dated, where Q = "\<lambda>_. True"
          and f = "\<lambda>order. delta_cash (order_price P order) i c order"]
      by (simp add: D2_Cash)
    moreover have "(\<Sum>j\<le>k. sym (cell D2 (idx ! j)) s)
          = (\<Sum>order\<leftarrow>filter (\<lambda>order. Symbol order = s) (orders_upto (idx ! k) os). delta_position order)"
      if "s \<in> set syms" for s
      using sum_on_day_upto [OF strict k(1) dated, where Q = "\<lambda>order. Symbol order = s"
          and f = delta_position] that
      by (simp add: D2_sym)
    ultimately show ?thesis
      using rs k(2) by (simp add: cash_on_def position_on_def)
  qed
  have "times_sum D1 F = map (\<lambda>d. (d, row_value syms (cell D1 d) (cell F d))) idx"
    by (simp add: times_sum_def D1(1,2))
  also have "\<dots> = map (\<lambda>d. (d, snapshot_value P sv c i os d)) idx"
  proof (rule map_cong [OF refl])
    fix d assume d: "d \<in> set idx"
    have "(\<Sum>s\<leftarrow>syms. price P d s * sym (cell F d) s) = (\<Sum>s\<leftarrow>syms. position_on os d s * price P d s)"
      by (rule sum_list_map_cong) (use F_cell [OF d] in \<open>simp add: mult.commute\<close>)
    then show "(d, row_value syms (cell D1 d) (cell F d)) = (d, snapshot_value P sv c i os d)"
      using F_cell [OF d] by (simp add: row_value_def snapshot_value_def D1 syms_def)
  qed
  finally have "times_sum D1 F = map (\<lambda>d. (d, snapshot_value P sv c i os d)) idx" .
  then show ?thesis
    using L D1 F_idx F_cell by (simp add: syms_def idx_def)
qed

section \<open>The exceptions of compute_portvals\<close>

lemma compute_portvals_locals_Inl:
  assumes "\<not> accepted P os"
  shows "compute_portvals_locals P os sv c i = Inl (failure P os)"
proof (cases "os = []")
  case True
  then show ?thesis by (simp add: compute_portvals_locals_def failure_def)
next
  case ne: False
  show ?thesis
  proof (cases "\<exists>b e. Date (hd os) = Day b \<and> Date (last os) = Day e")
    case False
    then show ?thesis using ne
      by (cases "Date (hd os)"; cases "Date (last os)")
         (simp_all add: compute_portvals_locals_def failure_def)
  next
    case True
    then obtain b e where be: "Date (hd os) = Day b" "Date (last os) = Day e"
      by blast
    show ?thesis
    proof (cases "\<exists>order \<in> set os. Symbol order \<notin> set (universe P)")
      case True
      then show ?thesis using ne be
        by (simp add: compute_portvals_locals_def failure_def get_data_def)
    next
      case univ: False
      show ?thesis
      proof (cases "window P os = []")
        case True
        then show ?thesis using ne be univ
          by (simp add: compute_portvals_locals_def failure_def get_data_def window_Day
              iloc_set_Cash_def set_Cash_def)
      next
        case win: False
        from univ have univ': "\<forall>order \<in> set os. Symbol order \<in> set (universe P)" by simp
        from assms ne be univ win
        have "\<exists>order \<in> set os. Order order \<noteq> None \<and> \<not> (\<exists>d \<in> set (window P os). Date order = Day d)"
          by (auto simp add: accepted_def)
        then have "\<exists>order \<in> set os. Order order \<noteq> None \<and>
            \<not> bookable
                (set_columns (unique (map Symbol os)) 0
                   (set_Cash 0 \<lparr>p_index = window P os, p_columns = unique (map Symbol os),
                                 p_cell = price P\<rparr>))
                (set_Cash 1 \<lparr>p_index = window P os, p_columns = unique (map Symbol os),
                              p_cell = price P\<rparr>) order"
          by (auto simp add: bookable_def set_columns_def set_Cash_def split: date_cell.splits)
        from book_orders_Inl [OF this, where i = i and c = c] show ?thesis
          using ne be univ win
          by (simp add: compute_portvals_locals_setup [OF ne be univ' win] failure_def)
      qed
    qed
  qed
qed

lemma compute_portvals_eq:
  "compute_portvals P os sv c i =
     (if accepted P os then Inr (map (\<lambda>d. (d, snapshot_value P sv c i os d)) (window P os))
      else Inl (failure P os))"
proof (cases "accepted P os")
  case True
  from compute_portvals_locals_Inr [OF this, of sv c i] show ?thesis
    using True by (auto simp add: compute_portvals_def)
next
  case False
  then show ?thesis
    by (simp add: compute_portvals_def compute_portvals_locals_Inl)
qed

section \<open>The ledger between two days\<close>

lemma compute_portvals_locals_InrD:
  assumes "compute_portvals_locals P os sv c i = Inr L"
  shows "accepted P os"
    and "os \<noteq> []"
    and "index (data_1 L) = window P os"
    and "columns (data_1 L) = unique (map Symbol os)"
    and "cell (data_1 L) = (\<lambda>d. \<lparr>sym = price P d, Cash = 1\<rparr>)"
    and "index (data_3 L) = window P os"
    and "columns (data_3 L) = unique (map Symbol os)"
    and "d \<in> set (window P os) \<Longrightarrow> Cash (cell (data_3 L) d) = cash_on P sv c i os d"
    and "d \<in> set (window P os) \<Longrightarrow> s \<in> set (map Symbol os) \<Longrightarrow>
           sym (cell (data_3 L) d) s = position_on os d s"
    and "port_vals L = map (\<lambda>d. (d, snapshot_value P sv c i os d)) (window P os)"
proof -
  show acc: "accepted P os"
    using assms compute_portvals_locals_Inl [of P os sv c i] by auto
  from compute_portvals_locals_Inr [OF acc, of sv c i] assms
  have L: "index (data_1 L) = window P os \<and> columns (data_1 L) = unique (map Symbol os)
     \<and> cell (data_1 L) = (\<lambda>d. \<lparr>sym = price P d, Cash = 1\<rparr>)
     \<and> index (data_3 L) = window P os \<and> columns (data_3 L) = unique (map Symbol os)
     \<and> (\<forall>d \<in> set (window P os).
           Cash (cell (data_3 L) d) = cash_on P sv c i os d
           \<and> (\<forall>s \<in> set (map Symbol os). sym (cell (data_3 L) d) s = position_on os d s))
     \<and> port_vals L = map (\<lambda>d. (d, snapshot_value P sv c i os d)) (window P os)"
    by auto
  from acc show "os \<noteq> []" by (simp add: accepted_def)
  from L show "index (data_1 L) = window P os" by blast
  from L show "columns (data_1 L) = unique (map Symbol os)" by blast
  from L show "cell (data_1 L) = (\<lambda>d. \<lparr>sym = price P d, Cash = 1\<rparr>)" by blast
  from L show "index (data_3 L) = window P os" by blast
  from L show "columns (data_3 L) = unique (map Symbol os)" by blast
  from L show "d \<in> set (window P os) \<Longrightarrow> Cash (cell (data_3 L) d) = cash_on P sv c i os d" by blast
  from L show "d \<in> set (window P os) \<Longrightarrow> s \<in> set (map Symbol os) \<Longrightarrow>
           sym (cell (data_3 L) d) s = position_on os d s" by blast
  from L show "port_vals L = map (\<lambda>d. (d, snapshot_value P sv c i os d)) (window P os)" by blast
qed

lemma upto_between:
  fixes f :: "order_row \<Rightarrow> real"
  assumes "d0 \<le> d"
  shows "(\<Sum>order\<leftarrow>filter Q (orders_upto d os). f order)
         = (\<Sum>order\<leftarrow>filter Q (orders_upto d0 os). f order)
           + (\<Sum>order\<leftarrow>filter Q (orders_between d0 d os). f order)"
  unfolding orders_upto_def orders_between_def filter_filter
  by (rule sum_list_filter_split) (use assms in \<open>auto split: date_cell.splits\<close>)

lemma ledger_between:
  assumes run: "compute_portvals_locals P os sv c i = Inr L"
    and d0: "d0 \<in> set (window P os)" and d: "d \<in> set (window P os)" and le: "d0 \<le> d"
  shows "Cash (cell (data_3 L) d) = Cash (cell (data_3 L) d0)
           + (\<Sum>order\<leftarrow>orders_between d0 d os. delta_cash (order_price P order) i c order)"
    and "s \<in> set (map Symbol os) \<Longrightarrow>
         sym (cell (data_3 L) d) s = sym (cell (data_3 L) d0) s
           + (\<Sum>order\<leftarrow>filter (\<lambda>order. Symbol order = s) (orders_between d0 d os).
                delta_position order)"
proof -
  note D = compute_portvals_locals_InrD [OF run]
  show "Cash (cell (data_3 L) d) = Cash (cell (data_3 L) d0)
           + (\<Sum>order\<leftarrow>orders_between d0 d os. delta_cash (order_price P order) i c order)"
    using upto_between [OF le, where Q = "\<lambda>_. True" and os = os
        and f = "\<lambda>order. delta_cash (order_price P order) i c order"]
    by (simp add: D(8) [OF d0] D(8) [OF d] cash_on_def)
  show "sym (cell (data_3 L) d) s = sym (cell (data_3 L) d0) s
           + (\<Sum>order\<leftarrow>filter (\<lambda>order. Symbol order = s) (orders_between d0 d os).
                delta_position order)" if s: "s \<in> set (map Symbol os)"
    using upto_between [OF le, where Q = "\<lambda>order. Symbol order = s" and os = os
        and f = delta_position]
    by (simp add: D(9) [OF d0 s] D(9) [OF d s] position_on_def)
qed

lemma orders_between_consecutive:
  assumes "accepted P os" "Suc k < length (window P os)"
  shows "orders_between (window P os ! k) (window P os ! Suc k) os = on_day (window P os ! Suc k) os"
  unfolding orders_between_def on_day_def
proof (rule filter_cong [OF refl])
  fix order assume o: "order \<in> set os"
  note st = upto_step [OF window_strict assms(2)]
  show "(Order order \<noteq> None \<and>
         (case Date order of Day d' \<Rightarrow> window P os ! k < d' \<and> d' \<le> window P os ! Suc k
          | _ \<Rightarrow> False))
        = (Order order \<noteq> None \<and> Date order = Day (window P os ! Suc k))"
  proof (cases "Order order = None")
    case True
    then show ?thesis by simp
  next
    case False
    with assms(1) o obtain d where d: "d \<in> set (window P os)" "Date order = Day d"
      by (auto simp add: accepted_def)
    have "window P os ! k < window P os ! Suc k"
      using window_strict [of P os] assms(2) by (simp add: sorted_wrt_iff_nth_less)
    then show ?thesis
      using st(1) [OF d(1)] st(2) [OF d(1)] d(2) False by auto
  qed
qed

section \<open>The valuation series\<close>

text \<open>
  C1. Whenever \<open>compute_portvals\<close> returns a series, the series has one snapshot for
  every day \<open>d\<close> it values, and the value of the snapshot is the cash of day \<open>d\<close> plus,
  summed over the symbols of the order table, the position of day \<open>d\<close> times the price
  of day \<open>d\<close>; the cash and the positions of day \<open>d\<close> are the starting cash and zero
  positions, changed by the cash and position changes of every order dated on or before
  \<open>d\<close>. A row without a side is no order.
\<close>

theorem snapshot_values:
  assumes "compute_portvals P os start_val commission impact = Inr pv"
  shows "pv = map (\<lambda>d. (d, cash_on P start_val commission impact os d
                         + (\<Sum>s\<leftarrow>unique (map Symbol os). position_on os d s * price P d s)))
                 (window P os)"
  using assms
  by (simp add: compute_portvals_eq snapshot_value_def split: if_splits)

theorem snapshot_values_witness:
  "compute_portvals P0 [buy_1, sell_2] 100000 (199 / 20) (1 / 200)
     = Inr [(0, 100000), (1, 1994801 / 20), (2, 1014701 / 10)]
   \<and> [(0, 100000), (1, 1994801 / 20), (2, 1014701 / 10)]
     = map (\<lambda>d. (d, cash_on P0 100000 (199 / 20) (1 / 200) [buy_1, sell_2] d
                    + (\<Sum>s\<leftarrow>unique (map Symbol [buy_1, sell_2]).
                         position_on [buy_1, sell_2] d s * price P0 d s)))
           (window P0 [buy_1, sell_2])"
proof -
  have run: "compute_portvals P0 [buy_1, sell_2] 100000 (199 / 20) (1 / 200)
     = Inr [(0, 100000), (1, 1994801 / 20), (2, 1014701 / 10)]"
    by code_simp
  from snapshot_values [OF run] run show ?thesis by simp
qed

text \<open>
  The days of a returned series are the provider's days from the day before the date of
  the first row to the date of the last row, in ascending order and without repetition.
\<close>

lemma series_days:
  assumes "compute_portvals P os start_val commission impact = Inr pv"
  shows "\<exists>b e. Date (hd os) = Day b \<and> Date (last os) = Day e
           \<and> map fst pv = filter (trading P) [b - 1..e]
           \<and> sorted (map fst pv) \<and> distinct (map fst pv)"
proof -
  from assms have acc: "accepted P os"
    and pv: "pv = map (\<lambda>d. (d, snapshot_value P start_val commission impact os d)) (window P os)"
    by (simp_all add: compute_portvals_eq split: if_splits)
  from accepted_Day [OF acc]
  obtain b e where be: "Date (hd os) = Day b" "Date (last os) = Day e"
    by blast
  have "map fst pv = window P os" by (simp add: pv comp_def)
  then show ?thesis
    using be window_strict [of P os] by (auto simp add: window_Day strict_sorted_iff)
qed

text \<open>
  C3 fails on the source. For a BUY on day 1 and a SELL on day 2 the series has a
  snapshot for day 0, the day before the first order: the source fetches prices from
  \<^verbatim>\<open>begin_date - dt.timedelta(days = 1)\<close> and returns a value for every fetched row.
\<close>

theorem leading_day_snapshot:
  "compute_portvals P0 [buy_1, sell_2] 100000 0 0
     = Inr [(0, 100000), (1, 100000), (2, 102000)]
   \<and> map Date [buy_1, sell_2] = [Day 1, Day 2]"
  by code_simp

text \<open>
  C4. On a run that returns, let \<open>d\<close> be a valued day after the first and \<open>d_prev\<close> the
  valued day before it. If no order is dated \<open>d\<close>, the cash and the position of every
  symbol after day \<open>d\<close> are those after day \<open>d_prev\<close>; if moreover every symbol has the
  same price on both days, the snapshot of \<open>d\<close> has the value of the snapshot of
  \<open>d_prev\<close>.
\<close>

theorem carry_forward:
  assumes "compute_portvals_locals P os start_val commission impact = Inr L"
    and "Suc k < length (window P os)"
    and "d = window P os ! Suc k" and "d_prev = window P os ! k"
    and "\<forall>order \<in> set os. Date order = Day d \<longrightarrow> Order order = None"
  shows "Cash (cell (data_3 L) d) = Cash (cell (data_3 L) d_prev)
       \<and> (\<forall>s \<in> set (map Symbol os). sym (cell (data_3 L) d) s = sym (cell (data_3 L) d_prev) s)
       \<and> ((\<forall>s \<in> set (map Symbol os). price P d s = price P d_prev s)
            \<longrightarrow> port_vals L ! Suc k = (d, snd (port_vals L ! k)))"
proof -
  note D = compute_portvals_locals_InrD [OF assms(1)]
  have k: "k < length (window P os)" using assms(2) by simp
  have mem: "d \<in> set (window P os)" "d_prev \<in> set (window P os)"
    using assms(2,3,4) k by simp_all
  have le: "d_prev \<le> d"
    using window_strict [of P os] assms(2,3,4) by (simp add: sorted_wrt_iff_nth_less less_imp_le)
  have "orders_between d_prev d os = on_day d os"
    using orders_between_consecutive [OF D(1) assms(2)] assms(3,4) by simp
  also have "\<dots> = []"
    using assms(5) by (auto simp add: on_day_def filter_empty_conv)
  finally have none: "orders_between d_prev d os = []" .
  have cash: "Cash (cell (data_3 L) d) = Cash (cell (data_3 L) d_prev)"
    using ledger_between(1) [OF assms(1) mem(2) mem(1) le] none by simp
  have pos: "sym (cell (data_3 L) d) s = sym (cell (data_3 L) d_prev) s"
    if "s \<in> set (map Symbol os)" for s
    using ledger_between(2) [OF assms(1) mem(2) mem(1) le that] none by simp
  have val: "port_vals L ! Suc k = (d, snd (port_vals L ! k))"
    if same: "\<forall>s \<in> set (map Symbol os). price P d s = price P d_prev s"
  proof -
    have "(\<Sum>s\<leftarrow>unique (map Symbol os). position_on os d s * price P d s)
        = (\<Sum>s\<leftarrow>unique (map Symbol os). position_on os d_prev s * price P d_prev s)"
    proof (rule sum_list_map_cong)
      fix s assume "s \<in> set (unique (map Symbol os))"
      then have s: "s \<in> set (map Symbol os)" by simp
      have "price P d s = price P d_prev s" using same s by blast
      moreover have "position_on os d s = position_on os d_prev s"
        using pos [OF s] D(9) [OF mem(1) s] D(9) [OF mem(2) s] by simp
      ultimately
      show "position_on os d s * price P d s = position_on os d_prev s * price P d_prev s"
        by simp
    qed
    moreover have "cash_on P start_val commission impact os d
        = cash_on P start_val commission impact os d_prev"
      using cash D(8) [OF mem(1)] D(8) [OF mem(2)] by simp
    ultimately show ?thesis
      using assms(2,3,4) k by (simp add: D(10) snapshot_value_def)
  qed
  from cash pos val show ?thesis by blast
qed

theorem carry_forward_witness:
  "\<exists>L. compute_portvals_locals P0 [ibm_buy_1, ibm_last_2] 100000 (199 / 20) (1 / 200) = Inr L
     \<and> Suc 1 < length (window P0 [ibm_buy_1, ibm_last_2])
     \<and> window P0 [ibm_buy_1, ibm_last_2] ! Suc 1 = 2
     \<and> window P0 [ibm_buy_1, ibm_last_2] ! 1 = 1
     \<and> Cash (cell (data_3 L) 2) = Cash (cell (data_3 L) 1)
     \<and> sym (cell (data_3 L) 2) ''IBM'' = sym (cell (data_3 L) 1) ''IBM''
     \<and> port_vals L ! Suc 1 = (2, snd (port_vals L ! 1))"
proof -
  have "accepted P0 [ibm_buy_1, ibm_last_2]" by code_simp
  from compute_portvals_locals_Inr [OF this, of 100000 "199 / 20" "1 / 200"]
  obtain L where L: "compute_portvals_locals P0 [ibm_buy_1, ibm_last_2] 100000 (199 / 20) (1 / 200) = Inr L"
    by blast
  have w: "window P0 [ibm_buy_1, ibm_last_2] = [0, 1, 2]" by code_simp
  have k: "Suc 1 < length (window P0 [ibm_buy_1, ibm_last_2])" by (simp add: w)
  have d: "2 = window P0 [ibm_buy_1, ibm_last_2] ! Suc 1" "1 = window P0 [ibm_buy_1, ibm_last_2] ! 1"
    by (simp_all add: w)
  have none: "\<forall>order \<in> set [ibm_buy_1, ibm_last_2]. Date order = Day 2 \<longrightarrow> Order order = None"
    by (simp add: ibm_buy_1_def ibm_last_2_def)
  have same: "\<forall>s \<in> set (map Symbol [ibm_buy_1, ibm_last_2]). price P0 2 s = price P0 1 s"
    by (simp add: ibm_buy_1_def ibm_last_2_def P0_def)
  from carry_forward [OF L k d none] same L k d show ?thesis
    by (auto simp add: ibm_buy_1_def)
qed

section \<open>Order of the orders\<close>

lemma index_ledger_after [simp]: "index (ledger_after df df_2 i c os) = index df"
  and columns_ledger_after [simp]: "columns (ledger_after df df_2 i c os) = columns df"
  by (simp_all add: ledger_after_def)

lemma bookable_ledger_after [simp]:
  "bookable (ledger_after df df_2 i c os) df_2 order = bookable df df_2 order"
  by (simp add: bookable_def split: date_cell.splits)

lemma ledger_after_Nil [simp]: "ledger_after df df_2 i c [] = df"
  by (simp add: ledger_after_def on_day_def)

lemma ledger_after_None:
  "Order order = None \<Longrightarrow> ledger_after df df_2 i c (order # os) = ledger_after df df_2 i c os"
  by (simp add: ledger_after_def on_day_def)

lemma ledger_after_Some:
  "Order order = Some side \<Longrightarrow>
   ledger_after (booked df df_2 i c (if side = ''SELL'' then 1 else - 1) [order]) df_2 i c os
   = ledger_after df df_2 i c (order # os)"
  by (auto simp add: ledger_after_def booked_def d_sym_def d_Cash_def on_day_def fun_eq_iff
      delta_position_def delta_cash_def algebra_simps)

lemma apply_in_order_Inr:
  "\<forall>order \<in> set os. Order order \<noteq> None \<longrightarrow> bookable df df_2 order \<Longrightarrow>
   apply_in_order df df_2 i c os = Inr (ledger_after df df_2 i c os)"
proof (induction os arbitrary: df)
  case Nil
  then show ?case by simp
next
  case (Cons order os)
  show ?case
  proof (cases "Order order")
    case None
    then show ?thesis using Cons by (simp add: ledger_after_None)
  next
    case (Some side)
    then have "bookable df df_2 order" using Cons.prems by simp
    moreover have "\<forall>x \<in> set os. Order x \<noteq> None \<longrightarrow>
        bookable (booked df df_2 i c (if side = ''SELL'' then 1 else - 1) [order]) df_2 x"
      using Cons.prems by simp
    ultimately show ?thesis
      using Some Cons.IH ledger_after_Some [OF Some, of df df_2 i c os]
      by (simp add: calculate_data_2_Inr)
  qed
qed

lemma apply_in_order_Inl:
  "\<exists>order \<in> set os. Order order \<noteq> None \<and> \<not> bookable df df_2 order \<Longrightarrow>
   apply_in_order df df_2 i c os = Inl KeyError"
proof (induction os arbitrary: df)
  case Nil
  then show ?case by simp
next
  case (Cons order os)
  show ?case
  proof (cases "Order order")
    case None
    then show ?thesis using Cons by simp
  next
    case (Some side)
    show ?thesis
    proof (cases "bookable df df_2 order")
      case True
      with Cons.prems Some
      have "\<exists>x \<in> set os. Order x \<noteq> None \<and>
          \<not> bookable (booked df df_2 i c (if side = ''SELL'' then 1 else - 1) [order]) df_2 x"
        by auto
      then show ?thesis using True Some Cons.IH
        by (simp add: calculate_data_2_Inr)
    next
      case False
      then show ?thesis using Some by (simp add: calculate_data_2_Inl)
    qed
  qed
qed

lemma book_orders_ledger_after:
  assumes "\<forall>order \<in> set os. Order order \<noteq> None \<longrightarrow> bookable df df_2 order"
  shows "book_orders df df_2 i c os = Inr (ledger_after df df_2 i c os)"
proof -
  have "booked (booked df df_2 i c 1 (sell_orders os)) df_2 i c (- 1) (buy_orders os)
        = ledger_after df df_2 i c os"
    using d_sym_sell_buy [of os] d_Cash_sell_buy [of df_2 i c os]
    by (simp add: booked_def ledger_after_def fun_eq_iff add.assoc)
  then show ?thesis using book_orders_Inr [OF assms, of i c] by simp
qed

lemma sum_list_filter_mset:
  fixes f :: "'a \<Rightarrow> real"
  assumes "mset xs = mset ys"
  shows "(\<Sum>x\<leftarrow>filter Q xs. f x) = (\<Sum>x\<leftarrow>filter Q ys. f x)"
proof -
  have "mset (map f (filter Q xs)) = mset (map f (filter Q ys))"
    using assms by simp
  then show ?thesis by (metis sum_mset_sum_list)
qed

lemma ledger_after_mset:
  assumes "mset os' = mset os"
  shows "ledger_after df df_2 i c os' = ledger_after df df_2 i c os"
  unfolding ledger_after_def on_day_def filter_filter
  using sum_list_filter_mset [OF assms] by simp

text \<open>
  C6. In exact arithmetic the source's booking of an order table, all SELL rows
  first and then all other rows, gives the same table of daily cash and position changes
  as applying the orders one after the other in the order of any permutation of the
  table: the same cash and the same position of every symbol on every day, or the same
  KeyError.
\<close>

theorem same_day_order_irrelevant:
  assumes "mset os' = mset os"
  shows "book_orders df df_2 impact commission os' = apply_in_order df df_2 impact commission os"
proof (cases "\<forall>order \<in> set os. Order order \<noteq> None \<longrightarrow> bookable df df_2 order")
  case True
  moreover have "set os' = set os" using assms by (rule mset_eq_setD)
  ultimately have "\<forall>order \<in> set os'. Order order \<noteq> None \<longrightarrow> bookable df df_2 order"
    by simp
  from book_orders_ledger_after [OF this] apply_in_order_Inr [OF True] ledger_after_mset [OF assms]
  show ?thesis by simp
next
  case False
  moreover have "set os' = set os" using assms by (rule mset_eq_setD)
  ultimately have "\<exists>order \<in> set os'. Order order \<noteq> None \<and> \<not> bookable df df_2 order"
    by simp
  from book_orders_Inl [OF this] apply_in_order_Inl [of os df df_2] False
  show ?thesis by simp
qed

theorem same_day_order_irrelevant_witness:
  "mset [buy_1, sell_1] = mset [sell_1, buy_1]
   \<and> book_orders changes_12 prices_12 (1 / 200) (199 / 20) [buy_1, sell_1]
       = apply_in_order changes_12 prices_12 (1 / 200) (199 / 20) [sell_1, buy_1]
   \<and> (\<exists>df'. apply_in_order changes_12 prices_12 (1 / 200) (199 / 20) [sell_1, buy_1] = Inr df'
         \<and> Cash (cell df' 1) = - 519.9 \<and> sym (cell df' 1) ''JPM'' = 0)"
proof -
  have m: "mset [buy_1, sell_1] = mset [sell_1, buy_1]" by simp
  have "\<forall>order \<in> set [sell_1, buy_1]. Order order \<noteq> None \<longrightarrow> bookable changes_12 prices_12 order"
    by (simp add: bookable_def changes_12_def prices_12_def buy_1_def sell_1_def set_Cash_def
        set_columns_def)
  from apply_in_order_Inr [OF this, of "1 / 200" "199 / 20"]
  have "apply_in_order changes_12 prices_12 (1 / 200) (199 / 20) [sell_1, buy_1]
          = Inr (ledger_after changes_12 prices_12 (1 / 200) (199 / 20) [sell_1, buy_1])
        \<and> Cash (cell (ledger_after changes_12 prices_12 (1 / 200) (199 / 20) [sell_1, buy_1]) 1)
            = - 519.9
        \<and> sym (cell (ledger_after changes_12 prices_12 (1 / 200) (199 / 20) [sell_1, buy_1]) 1)
            ''JPM'' = 0"
    by (simp add: ledger_after_def on_day_def delta_cash_def delta_position_def changes_12_def
        prices_12_def buy_1_def sell_1_def set_Cash_def set_columns_def P0_def)
  with same_day_order_irrelevant [OF m, of changes_12 prices_12 "1 / 200" "199 / 20"] m
  show ?thesis by blast
qed

section \<open>Round trips\<close>

text \<open>
  C5. On a run with commission 0 and impact 0 that returns, let the orders dated after a
  valued day \<open>d0\<close> and up to a valued day \<open>d\<close> be a BUY of \<open>n\<close> shares of \<open>s\<close> followed by
  a SELL of \<open>n\<close> shares of \<open>s\<close> at the same price. Then the cash after day \<open>d\<close> is the cash
  after day \<open>d0\<close>, and so is the position of every symbol. When the two orders are the
  only orders up to day \<open>d\<close>, the cash after day \<open>d\<close> is the starting cash and every
  position is zero.
\<close>

theorem round_trip_neutral:
  assumes "compute_portvals_locals P os start_val 0 0 = Inr L"
    and "d \<in> set (window P os)"
    and "Order buy = Some ''BUY''" and "Order sell = Some ''SELL''"
    and "Symbol buy = s" and "Symbol sell = s"
    and "Shares buy = n" and "Shares sell = n"
    and "order_price P buy = p" and "order_price P sell = p"
  shows "(\<forall>d0 \<in> set (window P os). d0 \<le> d \<and> orders_between d0 d os = [buy, sell] \<longrightarrow>
            Cash (cell (data_3 L) d) = Cash (cell (data_3 L) d0)
            \<and> (\<forall>s' \<in> set (map Symbol os).
                  sym (cell (data_3 L) d) s' = sym (cell (data_3 L) d0) s'))
       \<and> (orders_upto d os = [buy, sell] \<longrightarrow>
            Cash (cell (data_3 L) d) = start_val
            \<and> (\<forall>s' \<in> set (map Symbol os). sym (cell (data_3 L) d) s' = 0))"
proof -
  note D = compute_portvals_locals_InrD [OF assms(1)]
  have cash0: "delta_cash (order_price P buy) 0 0 buy + delta_cash (order_price P sell) 0 0 sell = 0"
    using assms(3-10) by (simp add: delta_cash_def)
  have pos0: "(\<Sum>order\<leftarrow>filter (\<lambda>order. Symbol order = s') [buy, sell]. delta_position order) = 0"
    for s'
    using assms(3-8) by (simp add: delta_position_def)
  have "Cash (cell (data_3 L) d) = Cash (cell (data_3 L) d0)
          \<and> (\<forall>s' \<in> set (map Symbol os). sym (cell (data_3 L) d) s' = sym (cell (data_3 L) d0) s')"
    if "d0 \<in> set (window P os)" "d0 \<le> d" "orders_between d0 d os = [buy, sell]" for d0
  proof
    show "Cash (cell (data_3 L) d) = Cash (cell (data_3 L) d0)"
      using ledger_between(1) [OF assms(1) that(1) assms(2) that(2)] cash0
      by (simp add: that(3))
    show "\<forall>s' \<in> set (map Symbol os). sym (cell (data_3 L) d) s' = sym (cell (data_3 L) d0) s'"
    proof
      fix s' assume "s' \<in> set (map Symbol os)"
      from ledger_between(2) [OF assms(1) that(1) assms(2) that(2) this] pos0 [of s']
      show "sym (cell (data_3 L) d) s' = sym (cell (data_3 L) d0) s'"
        by (simp only: that(3))
    qed
  qed
  moreover have "Cash (cell (data_3 L) d) = start_val
            \<and> (\<forall>s' \<in> set (map Symbol os). sym (cell (data_3 L) d) s' = 0)"
    if "orders_upto d os = [buy, sell]"
  proof
    show "Cash (cell (data_3 L) d) = start_val"
      using D(8) [OF assms(2)] cash0 by (simp add: cash_on_def that)
    show "\<forall>s' \<in> set (map Symbol os). sym (cell (data_3 L) d) s' = 0"
    proof
      fix s' assume "s' \<in> set (map Symbol os)"
      from D(9) [OF assms(2) this] pos0 [of s']
      show "sym (cell (data_3 L) d) s' = 0"
        by (simp only: position_on_def that)
    qed
  qed
  ultimately show ?thesis by blast
qed

theorem round_trip_neutral_witness:
  "\<exists>L. compute_portvals_locals P0 [ibm_buy_1, ibm_sell_2] 100000 0 0 = Inr L
     \<and> 2 \<in> set (window P0 [ibm_buy_1, ibm_sell_2])
     \<and> 0 \<in> set (window P0 [ibm_buy_1, ibm_sell_2])
     \<and> order_price P0 ibm_buy_1 = 10 \<and> order_price P0 ibm_sell_2 = 10
     \<and> orders_between 0 2 [ibm_buy_1, ibm_sell_2] = [ibm_buy_1, ibm_sell_2]
     \<and> orders_upto 2 [ibm_buy_1, ibm_sell_2] = [ibm_buy_1, ibm_sell_2]
     \<and> Cash (cell (data_3 L) 2) = Cash (cell (data_3 L) 0)
     \<and> sym (cell (data_3 L) 2) ''IBM'' = sym (cell (data_3 L) 0) ''IBM''
     \<and> Cash (cell (data_3 L) 2) = 100000
     \<and> sym (cell (data_3 L) 2) ''IBM'' = 0"
proof -
  have "accepted P0 [ibm_buy_1, ibm_sell_2]" by code_simp
  from compute_portvals_locals_Inr [OF this, of 100000 0 0]
  obtain L where L: "compute_portvals_locals P0 [ibm_buy_1, ibm_sell_2] 100000 0 0 = Inr L"
    by blast
  have w: "window P0 [ibm_buy_1, ibm_sell_2] = [0, 1, 2]" by code_simp
  have mem: "2 \<in> set (window P0 [ibm_buy_1, ibm_sell_2])" "0 \<in> set (window P0 [ibm_buy_1, ibm_sell_2])"
    by (simp_all add: w)
  have p: "order_price P0 ibm_buy_1 = 10" "order_price P0 ibm_sell_2 = 10"
    by (simp_all add: order_price_def ibm_buy_1_def ibm_sell_2_def P0_def)
  have b: "orders_between 0 2 [ibm_buy_1, ibm_sell_2] = [ibm_buy_1, ibm_sell_2]"
    and u: "orders_upto 2 [ibm_buy_1, ibm_sell_2] = [ibm_buy_1, ibm_sell_2]"
    by (simp_all add: orders_between_def orders_upto_def ibm_buy_1_def ibm_sell_2_def)
  have f: "Order ibm_buy_1 = Some ''BUY''" "Order ibm_sell_2 = Some ''SELL''"
    "Symbol ibm_buy_1 = ''IBM''" "Symbol ibm_sell_2 = ''IBM''"
    "Shares ibm_buy_1 = 100" "Shares ibm_sell_2 = 100"
    by (simp_all add: ibm_buy_1_def ibm_sell_2_def)
  from round_trip_neutral [OF L mem(1) f p] mem b u L p show ?thesis
    by (auto simp add: ibm_buy_1_def)
qed

section \<open>Rejected order tables\<close>








end
